theory Spec2Isabelle
  imports Main "HOL-Library.AList"
begin

section \<open>The tei2spacy pipeline\<close>

text \<open>
  A shallow embedding of the notebook \<^verbatim>\<open>tei2spacy-pipeline.ipynb\<close>: the function
  \<^verbatim>\<open>get_tag_from_char_index\<close>, the per-document function \<^verbatim>\<open>tei2spacy_simple\<close> and the
  cells that follow it (loading the serialized corpus, choosing the files, processing
  and adding them, writing the corpus back).

  Conventions of the model:
  \<^item> a Python \<^verbatim>\<open>str\<close> is a \<^typ>\<open>string\<close>, one list element per code point, so that
    \<^verbatim>\<open>len\<close> is \<^const>\<open>length\<close>;
  \<^item> a Python \<^verbatim>\<open>dict\<close> is an association list with distinct keys in insertion order;
    \<^verbatim>\<open>d[k] = v\<close> is \<^const>\<open>AList.update\<close>, which overwrites the value in place when the
    key is present and appends the pair otherwise; \<^verbatim>\<open>d.items()\<close> is the list itself;
  \<^item> a Python \<^verbatim>\<open>set\<close> is a duplicate-free list; the order in which a set is iterated
    is a parameter of the model;
  \<^item> an exception is the left summand of the result.
\<close>

subsection \<open>Data\<close>

text \<open>
  The exceptions: those that the notebook's own statements can raise, and \<open>OSError\<close>,
  \<open>ParseError\<close> and \<open>ValueError\<close> for the calls into the libraries (reading and parsing a
  file, extracting its metadata, running the spaCy model).
\<close>

datatype error = KeyError | IndexError | TypeError | AssertionError
  | OSError | ParseError | ValueError

text \<open>A value stored in \<^verbatim>\<open>doc.user_data\<close>: a string or \<^verbatim>\<open>None\<close>.\<close>

datatype pyval = PyStr string | PyNone

text \<open>
  A \<^verbatim>\<open>pathlib.Path\<close>, represented by its string; \<^verbatim>\<open>str(p)\<close> is \<open>path_str\<close>, and
  \<^verbatim>\<open>p.name\<close> is the final component.
\<close>

datatype path = Path string

fun path_str :: "path \<Rightarrow> string" where
  "path_str (Path s) = s"

fun path_name :: "path \<Rightarrow> string" where
  "path_name (Path s) = rev (takeWhile (\<lambda>c. c \<noteq> CHR ''/'') (rev s))"

text \<open>
  A child of a \<^verbatim>\<open>reg\<close> element as BeautifulSoup exposes it in \<^verbatim>\<open>elem.contents\<close>: a
  \<^verbatim>\<open>NavigableString\<close> (an instance of \<^verbatim>\<open>str\<close>) with its text, or a \<^verbatim>\<open>Tag\<close> with its
  name and its \<^verbatim>\<open>.text\<close>.
\<close>

datatype node = NavigableString string | Tag string string

text \<open>A spaCy token: \<^verbatim>\<open>token.i\<close>, \<^verbatim>\<open>token.idx\<close>, \<^verbatim>\<open>token.text\<close>.\<close>

record token =
  tok_i :: nat
  tok_idx :: nat
  tok_text :: string

text \<open>
  The dictionary \<^verbatim>\<open>entity\<close> of \<^verbatim>\<open>tei2spacy_simple\<close>, with its two possible keys
  \<^verbatim>\<open>'label'\<close> and \<^verbatim>\<open>'chunks'\<close>; a key that is absent is \<open>None\<close>, and \<^verbatim>\<open>{}\<close> is
  \<open>empty_entity\<close>.
\<close>

record 'tag entity =
  ent_label :: "'tag option"
  ent_chunks :: "token list option"

definition empty_entity :: "'tag entity" where
  "empty_entity = \<lparr>ent_label = None, ent_chunks = None\<rparr>"

text \<open>The dictionary \<^verbatim>\<open>spacy_ent\<close>, then the \<^verbatim>\<open>Span(doc, start, end, label)\<close> built from it.\<close>

record 'tag span =
  span_start :: nat
  span_end :: nat
  span_label :: "'tag"

text \<open>
  Modelled from the spec: \<^verbatim>\<open>extract_metadata_from_tei\<close> is in \<^verbatim>\<open>textentlib.utils\<close>, not
  in the notebook. Its result has the three string fields author, title and date.
\<close>

record metadata =
  author :: string
  title :: string
  date :: string

text \<open>The \<^verbatim>\<open>Doc\<close> returned by \<^verbatim>\<open>tei2spacy_simple\<close>.\<close>

record 'tag doc =
  doc_text :: string
  doc_tokens :: "token list"
  ents :: "'tag span list"
  user_data :: "(string \<times> pyval) list"

text \<open>
  What the notebook takes from outside: the label table \<^verbatim>\<open>tei_element_to_ner_label\<close>, the
  spaCy model \<^verbatim>\<open>nlp_model_fr\<close> (the tokens of a text, each as \<^verbatim>\<open>idx\<close> and \<^verbatim>\<open>text\<close>, in
  order), the parsed file (\<open>soup_regs\<close>: \<^verbatim>\<open>bs(tei_file_path.read_text(), 'xml')\<close>, then the
  \<^verbatim>\<open>contents\<close> of every element of \<^verbatim>\<open>soup.findAll('reg')\<close>), the metadata of a file
  (\<^verbatim>\<open>extract_metadata_from_tei(etree.parse(tei_file_path))\<close>), the listing of the directory
  \<^verbatim>\<open>corpus_basedir / 'NER'\<close>, and \<^verbatim>\<open>sample_files\<close>, a function of the listing, the sample
  size and the processed files that returns a collection of files. Reading and parsing a
  file, extracting its metadata and running the model can each raise: a listed entry
  that is a directory or is not well-formed XML, a text longer than the model accepts.
\<close>

record 'tag env =
  tei_element_to_ner_label :: "string \<Rightarrow> 'tag"
  nlp_model_fr :: "string \<Rightarrow> error + (nat \<times> string) list"
  soup_regs :: "path \<Rightarrow> error + node list list"
  extract_metadata_from_tei :: "path \<Rightarrow> error + metadata"
  iterdir :: "path list"
  sample_files :: "path list \<Rightarrow> nat \<Rightarrow> path list \<Rightarrow> path list"

subsection \<open>The lookup of a label by character offsets\<close>

type_synonym 'tag chunks = "((nat \<times> nat) \<times> 'tag) list"

fun get_tag_from_char_index :: "nat \<Rightarrow> nat \<Rightarrow> 'tag chunks \<Rightarrow> 'tag option" where
  "get_tag_from_char_index char_start char_end [] = None"
| "get_tag_from_char_index char_start char_end (((start, end'), tag) # entities) =
     (if start \<le> char_start \<and> end' \<ge> char_end then Some tag
      else get_tag_from_char_index char_start char_end entities)"

subsection \<open>Flattening the \<^verbatim>\<open>reg\<close> elements\<close>

fun flatten_node :: "(string \<Rightarrow> 'tag) \<Rightarrow> node \<Rightarrow> string \<times> 'tag chunks \<Rightarrow> string \<times> 'tag chunks" where
  "flatten_node lab (NavigableString t) (output_text, chunks) = (output_text @ t, chunks)"
| "flatten_node lab (Tag name t) (output_text, chunks) =
     (if name = ''persName'' \<or> name = ''placeName'' then
        (let offset_start = length output_text;
             output_text' = output_text @ t;
             offset_end = length output_text';
             ner_tag = lab name
         in (output_text', AList.update (offset_start, offset_end) ner_tag chunks))
      else (output_text @ t, chunks))"

definition flatten_reg :: "(string \<Rightarrow> 'tag) \<Rightarrow> node list \<Rightarrow> string \<times> 'tag chunks \<Rightarrow> string \<times> 'tag chunks" where
  "flatten_reg lab contents st =
     (case fold (flatten_node lab) contents st of
        (output_text, chunks) \<Rightarrow> (output_text @ '' '', chunks))"

definition flatten :: "(string \<Rightarrow> 'tag) \<Rightarrow> node list list \<Rightarrow> string \<times> 'tag chunks" where
  "flatten lab regs = fold (flatten_reg lab) regs ('''', [])"

text \<open>
  The sequence of assignments \<^verbatim>\<open>chunks[(offset_start, offset_end)] = ner_tag\<close> that the
  same traversal executes, in order, each with the text of its annotation element.
\<close>

fun trace_node :: "(string \<Rightarrow> 'tag) \<Rightarrow> node \<Rightarrow> string \<times> (((nat \<times> nat) \<times> 'tag) \<times> string) list
    \<Rightarrow> string \<times> (((nat \<times> nat) \<times> 'tag) \<times> string) list" where
  "trace_node lab (NavigableString t) (output_text, tr) = (output_text @ t, tr)"
| "trace_node lab (Tag name t) (output_text, tr) =
     (if name = ''persName'' \<or> name = ''placeName'' then
        (output_text @ t,
         tr @ [(((length output_text, length (output_text @ t)), lab name), t)])
      else (output_text @ t, tr))"

definition trace_reg :: "(string \<Rightarrow> 'tag) \<Rightarrow> node list \<Rightarrow> string \<times> (((nat \<times> nat) \<times> 'tag) \<times> string) list
    \<Rightarrow> string \<times> (((nat \<times> nat) \<times> 'tag) \<times> string) list" where
  "trace_reg lab contents st =
     (case fold (trace_node lab) contents st of (output_text, tr) \<Rightarrow> (output_text @ '' '', tr))"

definition assignments :: "(string \<Rightarrow> 'tag) \<Rightarrow> node list list \<Rightarrow> (((nat \<times> nat) \<times> 'tag) \<times> string) list" where
  "assignments lab regs = snd (fold (trace_reg lab) regs ('''', []))"

subsection \<open>Merging labelled tokens into entities\<close>

text \<open>
  The state of the loop over the tokens: \<^verbatim>\<open>entities\<close>, \<^verbatim>\<open>entity\<close>, \<^verbatim>\<open>inside_entity\<close>.
  One iteration of \<^verbatim>\<open>for token in doc\<close> first computes \<^verbatim>\<open>ner_label\<close>, the label of the
  character range \<^verbatim>\<open>token.idx\<close> to \<^verbatim>\<open>token.idx + len(token.text)\<close>.
\<close>

type_synonym 'tag merger = "'tag entity list \<times> 'tag entity \<times> bool"

definition token_label :: "'tag chunks \<Rightarrow> token \<Rightarrow> 'tag option" where
  "token_label chunks token =
     get_tag_from_char_index (tok_idx token) (tok_idx token + length (tok_text token)) chunks"

fun merge_token :: "'tag chunks \<Rightarrow> token \<Rightarrow> 'tag merger \<Rightarrow> error + 'tag merger" where
  "merge_token chunks token (entities, entity, inside_entity) =
     (let ner_label = token_label chunks token
      in if inside_entity then
           (case ner_label of
              None \<Rightarrow> Inr (entities @ [entity], empty_entity, False)
            | Some l \<Rightarrow>
                (case ent_label entity of
                   None \<Rightarrow> Inl KeyError
                 | Some el \<Rightarrow>
                     if el = l then
                       (case ent_chunks entity of
                          None \<Rightarrow> Inl KeyError
                        | Some cs \<Rightarrow> Inr (entities, entity\<lparr>ent_chunks := Some (cs @ [token])\<rparr>, True))
                     else Inr (entities @ [entity],
                               \<lparr>ent_label = Some l, ent_chunks = Some [token]\<rparr>, True)))
         else
           (case ner_label of
              Some l \<Rightarrow> Inr (entities, entity\<lparr>ent_label := Some l, ent_chunks := Some [token]\<rparr>, True)
            | None \<Rightarrow> Inr (entities, entity, False)))"

fun merge_tokens :: "'tag chunks \<Rightarrow> token list \<Rightarrow> 'tag merger \<Rightarrow> error + 'tag merger" where
  "merge_tokens chunks [] st = Inr st"
| "merge_tokens chunks (token # rest) st =
     (case merge_token chunks token st of
        Inl e \<Rightarrow> Inl e
      | Inr st' \<Rightarrow> merge_tokens chunks rest st')"

text \<open>One iteration of \<^verbatim>\<open>for entity in entities\<close>, then the whole loop.\<close>

definition spacy_ent :: "'tag entity \<Rightarrow> error + 'tag span" where
  "spacy_ent entity =
     (case ent_chunks entity of
        None \<Rightarrow> Inl KeyError
      | Some cs \<Rightarrow>
          (case cs of
             [] \<Rightarrow> Inl IndexError
           | c # _ \<Rightarrow>
               (case ent_label entity of
                  None \<Rightarrow> Inl KeyError
                | Some l \<Rightarrow> Inr \<lparr>span_start = tok_i c, span_end = tok_i (last cs) + 1,
                                 span_label = l\<rparr>)))"

fun entities_to_add :: "'tag entity list \<Rightarrow> error + 'tag span list" where
  "entities_to_add [] = Inr []"
| "entities_to_add (entity # entities) =
     (case spacy_ent entity of
        Inl e \<Rightarrow> Inl e
      | Inr s \<Rightarrow> (case entities_to_add entities of Inl e \<Rightarrow> Inl e | Inr ss \<Rightarrow> Inr (s # ss)))"

subsection \<open>The per-document function\<close>

text \<open>
  The tokens of the \<^verbatim>\<open>Doc\<close> that \<^verbatim>\<open>nlp_model_fr(output_text)\<close> returns: \<^verbatim>\<open>token.i\<close> is the
  position of the token in the document. The document returned holds the spans of
  \<^verbatim>\<open>entities_to_add\<close> as its \<^verbatim>\<open>ents\<close>; what spaCy itself checks when a \<^verbatim>\<open>Span\<close> is built and
  \<^verbatim>\<open>doc.ents\<close> is assigned is outside the model.
\<close>

definition doc_of :: "(nat \<times> string) list \<Rightarrow> token list" where
  "doc_of raw = map (\<lambda>(k, (off, txt)). \<lparr>tok_i = k, tok_idx = off, tok_text = txt\<rparr>) (enumerate 0 raw)"

definition set_user_data :: "metadata \<Rightarrow> path \<Rightarrow> (string \<times> pyval) list" where
  "set_user_data md tei_file_path =
     AList.update ''entity_linking'' PyNone
       (AList.update ''filename'' (PyStr (path_name tei_file_path))
         (AList.update ''path'' (PyStr (path_str tei_file_path))
           (AList.update ''publication_date'' (PyStr (date md))
             (AList.update ''title'' (PyStr (title md))
               (AList.update ''author'' (PyStr (author md)) [])))))"

definition tei2spacy_simple :: "'tag env \<Rightarrow> path \<Rightarrow> error + 'tag doc" where
  "tei2spacy_simple env tei_file_path =
     (case soup_regs env tei_file_path of
        Inl e \<Rightarrow> Inl e
      | Inr regs \<Rightarrow>
          (case flatten (tei_element_to_ner_label env) regs of
             (output_text, chunks) \<Rightarrow>
               (case extract_metadata_from_tei env tei_file_path of
                  Inl e \<Rightarrow> Inl e
                | Inr md \<Rightarrow>
                    (case nlp_model_fr env output_text of
                       Inl e \<Rightarrow> Inl e
                     | Inr raw \<Rightarrow>
                         (let tokens = doc_of raw;
                              ud = set_user_data md tei_file_path
                          in case merge_tokens chunks tokens ([], empty_entity, False) of
                               Inl e \<Rightarrow> Inl e
                             | Inr (entities, entity, inside_entity) \<Rightarrow>
                                 (case entities_to_add entities of
                                    Inl e \<Rightarrow> Inl e
                                  | Inr to_add \<Rightarrow>
                                      Inr \<lparr>doc_text = output_text, doc_tokens = tokens,
                                           ents = to_add, user_data = ud\<rparr>))))))"

text \<open>
  The three calls into the libraries return for the file: the file is read and parsed,
  its metadata is extracted, and the model returns the tokens of its flattened text.
\<close>

definition external_calls_return :: "'tag env \<Rightarrow> path \<Rightarrow> bool" where
  "external_calls_return env tei_file_path =
     (case soup_regs env tei_file_path of
        Inl e \<Rightarrow> False
      | Inr regs \<Rightarrow>
          (case extract_metadata_from_tei env tei_file_path of
             Inl e \<Rightarrow> False
           | Inr md \<Rightarrow>
               (case nlp_model_fr env (fst (flatten (tei_element_to_ner_label env) regs)) of
                  Inl e \<Rightarrow> False
                | Inr raw \<Rightarrow> True)))"

subsection \<open>The corpus and the batch\<close>

text \<open>
  The corpus is a spaCy \<^verbatim>\<open>DocBin\<close>: the documents in the order in which they were added.
  \<^verbatim>\<open>DocBin.add\<close> belongs to spaCy; it appends the document and checks nothing. The
  serialized file is \<open>None\<close> when the path does not exist and holds the documents
  otherwise; \<^verbatim>\<open>from_disk\<close> gives back what \<^verbatim>\<open>to_disk\<close> wrote.
\<close>

type_synonym 'tag corpus = "'tag doc list"

definition DocBin_add :: "'tag corpus \<Rightarrow> 'tag doc \<Rightarrow> 'tag corpus" where
  "DocBin_add spacy_corpus d = spacy_corpus @ [d]"

definition load :: "'tag corpus option \<Rightarrow> 'tag corpus" where
  "load store = (case store of Some spacy_corpus \<Rightarrow> spacy_corpus | None \<Rightarrow> [])"

text \<open>\<^verbatim>\<open>Path(doc.user_data['path'])\<close>, for one document and for every document in order.\<close>

definition doc_path :: "'tag doc \<Rightarrow> error + path" where
  "doc_path d =
     (case map_of (user_data d) ''path'' of
        None \<Rightarrow> Inl KeyError
      | Some PyNone \<Rightarrow> Inl TypeError
      | Some (PyStr s) \<Rightarrow> Inr (Path s))"

fun doc_paths :: "'tag corpus \<Rightarrow> error + path list" where
  "doc_paths [] = Inr []"
| "doc_paths (d # ds) =
     (case doc_path d of
        Inl e \<Rightarrow> Inl e
      | Inr p \<Rightarrow> (case doc_paths ds of Inl e \<Rightarrow> Inl e | Inr ps \<Rightarrow> Inr (p # ps)))"

definition already_processed_files :: "'tag corpus \<Rightarrow> error + path list" where
  "already_processed_files spacy_corpus =
     (case doc_paths spacy_corpus of Inl e \<Rightarrow> Inl e | Inr ps \<Rightarrow> Inr (remdups ps))"

text \<open>The difference of two sets, \<^verbatim>\<open>a - b\<close>.\<close>

definition set_minus :: "'a list \<Rightarrow> 'a list \<Rightarrow> 'a list" where
  "set_minus a b = filter (\<lambda>x. x \<notin> set b) a"

text \<open>
  The two cells that assign \<^verbatim>\<open>sampled_files\<close>: first the result of \<^verbatim>\<open>sample_files\<close>, then
  the difference of the directory listing and the processed files, which replaces it.
\<close>

definition sampled_files :: "'tag env \<Rightarrow> nat \<Rightarrow> path list \<Rightarrow> path list" where
  "sampled_files env sample_size already =
     (let sampled = sample_files env (iterdir env) sample_size already;
          sampled = set_minus (remdups (iterdir env)) already
      in sampled)"

text \<open>\<^verbatim>\<open>docs = [tei2spacy_simple(file) for file in tqdm(sampled_files)]\<close>\<close>

fun process_files :: "'tag env \<Rightarrow> path list \<Rightarrow> error + 'tag doc list" where
  "process_files env [] = Inr []"
| "process_files env (file # files) =
     (case tei2spacy_simple env file of
        Inl e \<Rightarrow> Inl e
      | Inr d \<Rightarrow> (case process_files env files of Inl e \<Rightarrow> Inl e | Inr ds \<Rightarrow> Inr (d # ds)))"

text \<open>
  The files that one run hands to \<^verbatim>\<open>tei2spacy_simple\<close>, in the order \<open>order\<close> in which the
  set \<^verbatim>\<open>sampled_files\<close> is iterated; the \<^verbatim>\<open>assert\<close> cell comes before.
\<close>

definition batch_files :: "'tag env \<Rightarrow> (path list \<Rightarrow> path list) \<Rightarrow> nat \<Rightarrow> 'tag corpus \<Rightarrow> error + path list" where
  "batch_files env order sample_size spacy_corpus =
     (case already_processed_files spacy_corpus of
        Inl e \<Rightarrow> Inl e
      | Inr already \<Rightarrow>
          (let sampled = sampled_files env sample_size already
           in if length (set_minus (remdups sampled) already) = length sampled
              then Inr (order sampled)
              else Inl AssertionError))"

text \<open>
  One run of the notebook from the load cell to \<^verbatim>\<open>to_disk\<close>: the result is the content
  of the serialized file after the run. A run that raises writes nothing.
\<close>

definition run_batch :: "'tag env \<Rightarrow> (path list \<Rightarrow> path list) \<Rightarrow> nat \<Rightarrow> 'tag corpus option
    \<Rightarrow> error + 'tag corpus option" where
  "run_batch env order sample_size store =
     (let spacy_corpus = load store
      in case batch_files env order sample_size spacy_corpus of
           Inl e \<Rightarrow> Inl e
         | Inr files \<Rightarrow>
             (case process_files env files of
                Inl e \<Rightarrow> Inl e
              | Inr docs \<Rightarrow> Inr (Some (fold (\<lambda>d c. DocBin_add c d) docs spacy_corpus))))"

definition store_after :: "'tag env \<Rightarrow> (path list \<Rightarrow> path list) \<Rightarrow> nat \<Rightarrow> 'tag corpus option
    \<Rightarrow> 'tag corpus option" where
  "store_after env order sample_size store =
     (case run_batch env order sample_size store of Inl e \<Rightarrow> store | Inr store' \<Rightarrow> store')"

text \<open>
  Modelled from the spec: \<^verbatim>\<open>print_corpus_summary\<close> is in \<^verbatim>\<open>textentlib.utils\<close>, not in the
  notebook. The summary is the number of documents, of entities and of tokens, each the
  sum over the documents.
\<close>

definition summary :: "'tag corpus \<Rightarrow> nat \<times> nat \<times> nat" where
  "summary spacy_corpus =
     (length spacy_corpus,
      sum_list (map (\<lambda>d. length (ents d)) spacy_corpus),
      sum_list (map (\<lambda>d. length (doc_tokens d)) spacy_corpus))"

text \<open>
  Modelled from the spec: the table \<^verbatim>\<open>tei_element_to_ner_label\<close> is in \<^verbatim>\<open>textentlib.utils\<close>,
  not in the notebook. The categories are a closed enumeration, person and location,
  chosen by the name of the element. The general results take the table as a
  parameter; this one serves the concrete examples.
\<close>

datatype EntityCategory = PERSON | LOCATION

definition ner_label_table :: "string \<Rightarrow> EntityCategory" where
  "ner_label_table name = (if name = ''persName'' then PERSON else LOCATION)"

subsection \<open>Predicates on intervals and spans\<close>

text \<open>
  An interval contains a token when it covers the whole character range of the token, and
  overlaps it when the two ranges share at least one character.
\<close>

definition contains_token :: "nat \<times> nat \<Rightarrow> token \<Rightarrow> bool" where
  "contains_token iv token \<longleftrightarrow>
     fst iv \<le> tok_idx token \<and> snd iv \<ge> tok_idx token + length (tok_text token)"

definition overlaps_token :: "nat \<times> nat \<Rightarrow> token \<Rightarrow> bool" where
  "overlaps_token iv token \<longleftrightarrow>
     tok_idx token < snd iv \<and> fst iv < tok_idx token + length (tok_text token)"

text \<open>Two different intervals of the dictionary never share a character.\<close>

definition disjoint_intervals :: "'tag chunks \<Rightarrow> bool" where
  "disjoint_intervals chunks \<longleftrightarrow>
     (\<forall>x \<in> set chunks. \<forall>y \<in> set chunks.
        fst x \<noteq> fst y \<longrightarrow> snd (fst x) \<le> fst (fst y) \<or> snd (fst y) \<le> fst (fst x))"

text \<open>
  Written from the specification, not from the notebook: the lookup over intervals
  sorted by start that stops at the first interval whose start lies beyond the end of
  the token.
\<close>

fun sorted_scan :: "nat \<Rightarrow> nat \<Rightarrow> 'tag chunks \<Rightarrow> 'tag option" where
  "sorted_scan token_start token_end [] = None"
| "sorted_scan token_start token_end (((start, end'), tag) # intervals) =
     (if start > token_end then None
      else if start \<le> token_start \<and> end' \<ge> token_end then Some tag
      else sorted_scan token_start token_end intervals)"

text \<open>
  The intervals are sorted by start and pairwise non-overlapping: an interval ends where
  a later one starts, or before.
\<close>

fun sorted_nonoverlapping :: "'tag chunks \<Rightarrow> bool" where
  "sorted_nonoverlapping [] = True"
| "sorted_nonoverlapping (x # xs) =
     ((\<forall>y \<in> set xs. fst (fst x) \<le> fst (fst y) \<and> snd (fst x) \<le> fst (fst y))
      \<and> sorted_nonoverlapping xs)"

text \<open>The entries of the dictionary whose interval contains the token.\<close>

definition containing :: "'tag chunks \<Rightarrow> token \<Rightarrow> 'tag chunks" where
  "containing chunks token = filter (\<lambda>x. contains_token (fst x) token) chunks"

text \<open>
  A list of spans is well formed when every span has at least one token, every span ends
  where a later one starts or before, and two neighbours never have both the same label
  and touching indices.
\<close>

definition spans_ok :: "'tag span list \<Rightarrow> bool" where
  "spans_ok ss \<longleftrightarrow>
     (\<forall>s \<in> set ss. span_start s < span_end s)
     \<and> sorted_wrt (\<lambda>s t. span_end s \<le> span_start t) ss
     \<and> successively (\<lambda>s t. \<not> (span_label s = span_label t \<and> span_end s = span_start t)) ss"

text \<open>
  The invariant of the loop over the tokens, before the token of index \<open>n\<close>: the closed
  entities convert to well-formed spans; an open entity has a label and a non-empty list
  of tokens that ends at token \<open>n - 1\<close>, and starts after every closed span.
\<close>

definition merger_inv :: "nat \<Rightarrow> 'tag merger \<Rightarrow> bool" where
  "merger_inv n st =
     (case st of (entities, entity, inside_entity) \<Rightarrow>
        (\<exists>ss. entities_to_add entities = Inr ss \<and> spans_ok ss \<and>
           (if inside_entity then
              (\<exists>l c cs. ent_label entity = Some l \<and> ent_chunks entity = Some (c # cs)
                 \<and> tok_i c < n \<and> tok_i (last (c # cs)) + 1 = n
                 \<and> (\<forall>s \<in> set ss. span_end s \<le> tok_i c)
                 \<and> (ss \<noteq> [] \<longrightarrow> \<not> (span_label (last ss) = l \<and> span_end (last ss) = tok_i c)))
            else (\<forall>s \<in> set ss. span_end s < n))))"

subsection \<open>A concrete environment for the examples\<close>

text \<open>
  A tokenizer that splits at spaces, standing for the spaCy model in the examples: each
  maximal run of non-space characters is a token, with the offset of its first character.
\<close>

fun split_ws :: "nat \<Rightarrow> string \<Rightarrow> string \<Rightarrow> (nat \<times> string) list" where
  "split_ws pos word [] = (if word = [] then [] else [(pos - length word, word)])"
| "split_ws pos word (c # cs) =
     (if c = CHR '' '' then
        (if word = [] then [] else [(pos - length word, word)]) @ split_ws (Suc pos) [] cs
      else split_ws (Suc pos) (word @ [c]) cs)"

text \<open>
  Four files, in a directory that also has a subdirectory \<^verbatim>\<open>old\<close>, which cannot be read
  as a file: \<^verbatim>\<open>a.xml\<close> holds \<^verbatim>\<open><reg><persName>Jean</persName> <placeName>Paris</placeName> aime</reg>\<close>,
  \<^verbatim>\<open>b.xml\<close> holds \<^verbatim>\<open><reg><persName>Jean</persName></reg>\<close>, \<^verbatim>\<open>c.xml\<close> holds
  \<^verbatim>\<open><reg>il <persName></persName><placeName></placeName>dort</reg>\<close>, and \<^verbatim>\<open>d.xml\<close> holds
  \<^verbatim>\<open><reg><persName></persName></reg>\<close>.
\<close>

definition example_regs :: "path \<Rightarrow> node list list" where
  "example_regs p =
     (if p = Path ''NER/a.xml'' then
        [[Tag ''persName'' ''Jean'', NavigableString '' '', Tag ''placeName'' ''Paris'',
          NavigableString '' aime'']]
      else if p = Path ''NER/b.xml'' then [[Tag ''persName'' ''Jean'']]
      else if p = Path ''NER/c.xml'' then
        [[NavigableString ''il '', Tag ''persName'' '''', Tag ''placeName'' '''',
          NavigableString ''dort'']]
      else if p = Path ''NER/d.xml'' then [[Tag ''persName'' '''']]
      else [])"

definition example_soup :: "path \<Rightarrow> error + node list list" where
  "example_soup p = (if p = Path ''NER/old'' then Inl OSError else Inr (example_regs p))"

definition example_env :: "EntityCategory env" where
  "example_env =
     \<lparr>tei_element_to_ner_label = ner_label_table,
      nlp_model_fr = (\<lambda>text. Inr (split_ws 0 [] text)),
      soup_regs = example_soup,
      extract_metadata_from_tei =
        (\<lambda>p. if p = Path ''NER/old'' then Inl OSError
             else Inr \<lparr>author = ''Racine'', title = ''Phedre'', date = ''1677''\<rparr>),
      iterdir = [Path ''NER/a.xml'', Path ''NER/b.xml''],
      sample_files = (\<lambda>listing sample_size already. take sample_size listing)\<rparr>"

subsection \<open>Predicates on the flattening\<close>

text \<open>The dictionary that a sequence of assignments builds, starting from the empty one.\<close>

definition store_all :: "(((nat \<times> nat) \<times> 'tag) \<times> string) list \<Rightarrow> 'tag chunks" where
  "store_all tr = fold (\<lambda>a. AList.update (fst (fst a)) (snd (fst a))) tr []"

text \<open>
  The invariant of the traversal: an assignment ends where a later one starts or before,
  ends within the text written so far, and spans exactly the text of its element.
\<close>

definition trace_inv :: "string \<times> (((nat \<times> nat) \<times> 'tag) \<times> string) list \<Rightarrow> bool" where
  "trace_inv st \<longleftrightarrow>
     sorted_wrt (\<lambda>a b. snd (fst (fst a)) \<le> fst (fst (fst b))) (snd st)
     \<and> (\<forall>a \<in> set (snd st). snd (fst (fst a)) \<le> length (fst st)
            \<and> snd (fst (fst a)) = fst (fst (fst a)) + length (snd a))"

subsection \<open>The order of iteration of a set\<close>

text \<open>
  Iterating over a Python set visits every element once, in an order that the language
  does not fix: \<open>order\<close> gives, for the elements of a set, the sequence in which they are
  visited.
\<close>

definition iteration_order :: "('a list \<Rightarrow> 'a list) \<Rightarrow> bool" where
  "iteration_order order \<longleftrightarrow>
     (\<forall>xs. distinct xs \<longrightarrow> set (order xs) = set xs \<and> distinct (order xs))"

section \<open>Results\<close>

subsection \<open>The label of a token\<close>

lemma get_tag_Some_contained:
  "get_tag_from_char_index cs ce chunks = Some tag \<Longrightarrow>
     \<exists>s e. ((s, e), tag) \<in> set chunks \<and> s \<le> cs \<and> e \<ge> ce"
  by (induction cs ce chunks rule: get_tag_from_char_index.induct) (auto split: if_splits)

lemma get_tag_None_iff:
  "get_tag_from_char_index cs ce chunks = None \<longleftrightarrow>
     (\<forall>((s, e), tag) \<in> set chunks. \<not> (s \<le> cs \<and> e \<ge> ce))"
  by (induction cs ce chunks rule: get_tag_from_char_index.induct) auto

lemma token_label_iff:
  "token_label chunks token \<noteq> None \<longleftrightarrow> (\<exists>(iv, tag) \<in> set chunks. contains_token iv token)"
  unfolding token_label_def contains_token_def get_tag_None_iff by fastforce

subsection \<open>The first-match scan and the sorted scan\<close>

lemma get_tag_None_beyond:
  "\<forall>y \<in> set xs. cs < fst (fst y) \<Longrightarrow> get_tag_from_char_index cs ce xs = None"
  unfolding get_tag_None_iff by auto

lemma scan_equiv:
  "cs \<le> ce \<Longrightarrow> sorted_nonoverlapping xs \<Longrightarrow>
     get_tag_from_char_index cs ce xs = sorted_scan cs ce xs"
proof (induction cs ce xs rule: sorted_scan.induct)
  case (1 cs ce)
  then show ?case by simp
next
  case (2 cs ce s e tag rest)
  show ?case
  proof (cases "s > ce")
    case True
    with 2 have "\<forall>y \<in> set rest. cs < fst (fst y)" by fastforce
    then have "get_tag_from_char_index cs ce rest = None" by (rule get_tag_None_beyond)
    with True 2 show ?thesis by simp
  next
    case False
    with 2 show ?thesis by simp
  qed
qed

lemma containing_le_one:
  "tok_text token \<noteq> [] \<Longrightarrow> sorted_nonoverlapping xs \<Longrightarrow> length (containing xs token) \<le> 1"
proof (induction xs)
  case Nil
  then show ?case by (simp add: containing_def)
next
  case (Cons x xs)
  show ?case
  proof (cases "contains_token (fst x) token")
    case True
    have "\<not> contains_token (fst y) token" if "y \<in> set xs" for y
    proof -
      from Cons.prems(2) that have "snd (fst x) \<le> fst (fst y)" by simp
      moreover from Cons.prems(1) have "0 < length (tok_text token)" by simp
      ultimately show ?thesis using True unfolding contains_token_def by linarith
    qed
    then have "containing xs token = []"
      unfolding containing_def by (simp add: filter_empty_conv)
    with True show ?thesis by (simp add: containing_def)
  next
    case False
    with Cons show ?thesis by (simp add: containing_def)
  qed
qed

text \<open>
  Claim C8, as stated, fails for a token without characters: placed where one interval
  ends and the next one starts, it lies in both, although the two intervals do not
  overlap and are sorted.
\<close>

theorem empty_token_in_two_intervals:
  "\<not> (sorted_nonoverlapping [((0, 5), PERSON), ((5, 9), LOCATION)] \<longrightarrow>
        length (containing [((0, 5), PERSON), ((5, 9), LOCATION)]
                  \<lparr>tok_i = 1, tok_idx = 5, tok_text = ''''\<rparr>) \<le> 1)"
  by (simp add: containing_def contains_token_def)

text \<open>
  Claim C8, amended. For intervals that are pairwise non-overlapping and sorted by start:
  at most one interval contains the character range of a token that has at least one
  character; and for every token, with or without characters, the first-match scan of
  \<^verbatim>\<open>get_tag_from_char_index\<close> returns the same label as the sorted scan that stops once
  the start of an interval lies beyond the end of the token.
\<close>

theorem first_match_scan_eq_sorted_scan:
  "sorted_nonoverlapping chunks \<Longrightarrow>
     (tok_text token \<noteq> [] \<longrightarrow> length (containing chunks token) \<le> 1)
     \<and> token_label chunks token
         = sorted_scan (tok_idx token) (tok_idx token + length (tok_text token)) chunks"
  using containing_le_one [of token chunks]
    scan_equiv [of "tok_idx token" "tok_idx token + length (tok_text token)" chunks]
  by (simp add: token_label_def)

theorem first_match_scan_eq_sorted_scan_witness:
  "sorted_nonoverlapping [((0, 5), PERSON), ((5, 9), LOCATION)]
   \<and> tok_text \<lparr>tok_i = 1, tok_idx = 5, tok_text = ''est''\<rparr> \<noteq> []
   \<and> length (containing [((0, 5), PERSON), ((5, 9), LOCATION)]
                  \<lparr>tok_i = 1, tok_idx = 5, tok_text = ''est''\<rparr>) \<le> 1
   \<and> token_label [((0, 5), PERSON), ((5, 9), LOCATION)] \<lparr>tok_i = 1, tok_idx = 5, tok_text = ''est''\<rparr>
       = Some LOCATION
   \<and> sorted_scan 5 8 [((0, 5), PERSON), ((5, 9), LOCATION)] = Some LOCATION"
  using first_match_scan_eq_sorted_scan [of "[((0, 5), PERSON), ((5, 9), LOCATION)]"
           "\<lparr>tok_i = 1, tok_idx = 5, tok_text = ''est''\<rparr>"]
  by (simp add: token_label_def)

subsection \<open>The loop over the tokens never raises and keeps its invariant\<close>

lemma entities_to_add_snoc:
  "entities_to_add (es @ [e]) =
     (case entities_to_add es of
        Inl x \<Rightarrow> Inl x
      | Inr ss \<Rightarrow> (case spacy_ent e of Inl x \<Rightarrow> Inl x | Inr s \<Rightarrow> Inr (ss @ [s])))"
  by (induction es) (auto split: sum.splits)

lemma spans_ok_snoc:
  "spans_ok ss \<Longrightarrow> span_start s < span_end s \<Longrightarrow> \<forall>x \<in> set ss. span_end x \<le> span_start s \<Longrightarrow>
   (ss \<noteq> [] \<longrightarrow> \<not> (span_label (last ss) = span_label s \<and> span_end (last ss) = span_start s)) \<Longrightarrow>
   spans_ok (ss @ [s])"
  unfolding spans_ok_def
  by (auto simp: sorted_wrt_append successively_append_iff)

lemma spans_ok_Nil: "spans_ok []"
  by (simp add: spans_ok_def)

lemma merger_inv_init: "merger_inv 0 ([], empty_entity, False)"
  by (simp add: merger_inv_def spans_ok_Nil)

lemma merger_inv_insideI:
  assumes "entities_to_add entities = Inr ss" "spans_ok ss"
    "ent_label entity = Some l" "ent_chunks entity = Some (c # cs)"
    "tok_i c < n" "tok_i (last (c # cs)) + 1 = n"
    "\<forall>s \<in> set ss. span_end s \<le> tok_i c"
    "ss \<noteq> [] \<longrightarrow> \<not> (span_label (last ss) = l \<and> span_end (last ss) = tok_i c)"
  shows "merger_inv n (entities, entity, True)"
  unfolding merger_inv_def using assms by simp

lemma merger_inv_outsideI:
  assumes "entities_to_add entities = Inr ss" "spans_ok ss" "\<forall>s \<in> set ss. span_end s < n"
  shows "merger_inv n (entities, entity, False)"
  unfolding merger_inv_def using assms by simp

lemma merge_token_inv:
  assumes "merger_inv n st" and "tok_i token = n"
  shows "\<exists>st'. merge_token chunks token st = Inr st' \<and> merger_inv (Suc n) st'"
proof -
  obtain entities entity inside_entity where st: "st = (entities, entity, inside_entity)"
    by (cases st) auto
  from assms(1) st obtain ss where ss: "entities_to_add entities = Inr ss" "spans_ok ss"
    and rest: "if inside_entity then
              (\<exists>l c cs. ent_label entity = Some l \<and> ent_chunks entity = Some (c # cs)
                 \<and> tok_i c < n \<and> tok_i (last (c # cs)) + 1 = n
                 \<and> (\<forall>s \<in> set ss. span_end s \<le> tok_i c)
                 \<and> (ss \<noteq> [] \<longrightarrow> \<not> (span_label (last ss) = l \<and> span_end (last ss) = tok_i c)))
            else (\<forall>s \<in> set ss. span_end s < n)"
    unfolding merger_inv_def by auto
  show ?thesis
  proof (cases inside_entity)
    case False
    with rest have b: "\<forall>s \<in> set ss. span_end s < n" by simp
    show ?thesis
    proof (cases "token_label chunks token")
      case None
      with False st ss b show ?thesis
        by (auto simp: merger_inv_def)
    next
      case (Some l)
      have "span_end (last ss) \<noteq> tok_i token" if "ss \<noteq> []"
      proof -
        from that have "last ss \<in> set ss" by simp
        with b have "span_end (last ss) < n" by blast
        with assms(2) show ?thesis by simp
      qed
      then have "merger_inv (Suc n)
              (entities, entity\<lparr>ent_label := Some l, ent_chunks := Some [token]\<rparr>, True)"
        using ss b assms(2)
        by (intro merger_inv_insideI [where ss = ss and l = l and c = token and cs = "[]"])
           (auto simp: less_imp_le)
      with Some False st show ?thesis by simp
    qed
  next
    case True
    with rest obtain l c cs where e: "ent_label entity = Some l" "ent_chunks entity = Some (c # cs)"
      "tok_i c < n" "tok_i (last (c # cs)) + 1 = n" "\<forall>s \<in> set ss. span_end s \<le> tok_i c"
      "ss \<noteq> [] \<longrightarrow> \<not> (span_label (last ss) = l \<and> span_end (last ss) = tok_i c)"
      by auto
    define s where "s = \<lparr>span_start = tok_i c, span_end = n, span_label = l\<rparr>"
    have se: "spacy_ent entity = Inr s"
      using e by (simp add: spacy_ent_def s_def)
    have ok: "spans_ok (ss @ [s])"
      using ss(2) e by (intro spans_ok_snoc) (auto simp: s_def)
    have add: "entities_to_add (entities @ [entity]) = Inr (ss @ [s])"
      by (simp add: entities_to_add_snoc ss se)
    show ?thesis
    proof (cases "token_label chunks token")
      case None
      have "merger_inv (Suc n) (entities @ [entity], empty_entity, False)"
        using add ok e
        by (intro merger_inv_outsideI [where ss = "ss @ [s]"]) (auto simp: s_def)
      with None True st show ?thesis by simp
    next
      case (Some l')
      show ?thesis
      proof (cases "l = l'")
        case same: True
        have "merger_inv (Suc n) (entities, entity\<lparr>ent_chunks := Some ((c # cs) @ [token])\<rparr>, True)"
          using ss e assms(2)
          by (intro merger_inv_insideI [where ss = ss and l = l and c = c and cs = "cs @ [token]"])
             auto
        with Some True st e same show ?thesis by simp
      next
        case diff: False
        have "merger_inv (Suc n)
                (entities @ [entity], \<lparr>ent_label = Some l', ent_chunks = Some [token]\<rparr>, True)"
          using add ok e assms(2) diff
          by (intro merger_inv_insideI [where ss = "ss @ [s]" and l = l' and c = token and cs = "[]"])
             (auto simp: s_def)
        with Some True st e diff show ?thesis by simp
      qed
    qed
  qed
qed

lemma merge_tokens_inv:
  "merger_inv n st \<Longrightarrow> map tok_i tokens = [n..<n + length tokens] \<Longrightarrow>
     \<exists>st'. merge_tokens chunks tokens st = Inr st' \<and> merger_inv (n + length tokens) st'"
proof (induction tokens arbitrary: n st)
  case Nil
  then show ?case by simp
next
  case (Cons token rest)
  have "[n..<n + length (token # rest)] = n # [Suc n..<Suc n + length rest]"
    by (simp add: upt_conv_Cons del: upt_Suc)
  with Cons.prems(2) have hd: "tok_i token = n" and tl: "map tok_i rest = [Suc n..<Suc n + length rest]"
    by simp_all
  from merge_token_inv [OF Cons.prems(1) hd, of chunks]
  obtain st' where s: "merge_token chunks token st = Inr st'" "merger_inv (Suc n) st'" by auto
  from Cons.IH [OF s(2) tl] s(1) show ?case by auto
qed

lemma tok_i_doc_of: "map tok_i (doc_of raw) = [0..<0 + length (doc_of raw)]"
proof -
  have "map tok_i (doc_of raw) = map fst (enumerate 0 raw)"
    by (simp add: doc_of_def case_prod_beta cong: map_cong)
  then show ?thesis by (simp add: doc_of_def)
qed

lemma merger_spans_ok:
  "\<exists>entities entity inside_entity ss.
     merge_tokens chunks (doc_of raw) ([], empty_entity, False) = Inr (entities, entity, inside_entity)
     \<and> entities_to_add entities = Inr ss \<and> spans_ok ss"
proof -
  from merge_tokens_inv [OF merger_inv_init tok_i_doc_of, where chunks = chunks and raw1 = raw]
  obtain st' where s: "merge_tokens chunks (doc_of raw) ([], empty_entity, False) = Inr st'"
    "merger_inv (0 + length (doc_of raw)) st'" by auto
  then show ?thesis
    by (cases st') (auto simp: merger_inv_def)
qed

lemma tei2spacy_simple_cases:
  obtains (raises) e where "tei2spacy_simple env p = Inl e" "\<not> external_calls_return env p"
  | (returns) d md where "tei2spacy_simple env p = Inr d" "external_calls_return env p"
      "spans_ok (ents d)" "extract_metadata_from_tei env p = Inr md"
      "user_data d = set_user_data md p"
proof (cases "soup_regs env p")
  case (Inl e)
  then show ?thesis
    by (intro raises [of e]) (simp_all add: tei2spacy_simple_def external_calls_return_def)
next
  case regs: (Inr regs)
  obtain output_text chunks where f: "flatten (tei_element_to_ner_label env) regs = (output_text, chunks)"
    by (cases "flatten (tei_element_to_ner_label env) regs") auto
  show ?thesis
  proof (cases "extract_metadata_from_tei env p")
    case (Inl e)
    with regs f show ?thesis
      by (intro raises [of e]) (simp_all add: tei2spacy_simple_def external_calls_return_def)
  next
    case md: (Inr md)
    show ?thesis
    proof (cases "nlp_model_fr env output_text")
      case (Inl e)
      with regs f md show ?thesis
        by (intro raises [of e]) (simp_all add: tei2spacy_simple_def external_calls_return_def)
    next
      case raw: (Inr raw)
      from merger_spans_ok [of chunks raw]
      obtain entities entity inside_entity ss where m:
        "merge_tokens chunks (doc_of raw) ([], empty_entity, False) = Inr (entities, entity, inside_entity)"
        "entities_to_add entities = Inr ss" "spans_ok ss" by blast
      let ?d = "\<lparr>doc_text = output_text, doc_tokens = doc_of raw, ents = ss,
                  user_data = set_user_data md p\<rparr>"
      from regs f md raw m have "tei2spacy_simple env p = Inr ?d"
        by (simp add: tei2spacy_simple_def)
      moreover from regs f md raw have "external_calls_return env p"
        by (simp add: external_calls_return_def)
      ultimately show ?thesis
        using m(3) md by (intro returns [of ?d md]) simp_all
    qed
  qed
qed

lemma tei2spacy_simple_returns:
  "external_calls_return env p \<Longrightarrow> \<exists>d. tei2spacy_simple env p = Inr d"
  by (cases env p rule: tei2spacy_simple_cases) auto

lemma tei2spacy_simple_Inr:
  assumes "tei2spacy_simple env p = Inr d"
  shows "external_calls_return env p" and "spans_ok (ents d)"
    and "\<exists>md. extract_metadata_from_tei env p = Inr md \<and> user_data d = set_user_data md p"
  using assms by (cases env p rule: tei2spacy_simple_cases; simp)+

lemma successively_nth:
  "successively P xs \<Longrightarrow> Suc i < length xs \<Longrightarrow> P (xs ! i) (xs ! Suc i)"
  by (induction P xs arbitrary: i rule: successively.induct) (auto simp: nth_Cons split: nat.splits)

subsection \<open>The example files\<close>

lemma flatten_a:
  "flatten ner_label_table (example_regs (Path ''NER/a.xml''))
     = (''Jean Paris aime '', [((0, 4), PERSON), ((5, 10), LOCATION)])"
  by (simp add: flatten_def flatten_reg_def example_regs_def ner_label_table_def)

lemma example_a:
  "tei2spacy_simple example_env (Path ''NER/a.xml'') =
     Inr \<lparr>doc_text = ''Jean Paris aime '',
          doc_tokens = [\<lparr>tok_i = 0, tok_idx = 0, tok_text = ''Jean''\<rparr>,
                        \<lparr>tok_i = 1, tok_idx = 5, tok_text = ''Paris''\<rparr>,
                        \<lparr>tok_i = 2, tok_idx = 11, tok_text = ''aime''\<rparr>],
          ents = [\<lparr>span_start = 0, span_end = 1, span_label = PERSON\<rparr>,
                  \<lparr>span_start = 1, span_end = 2, span_label = LOCATION\<rparr>],
          user_data = set_user_data \<lparr>author = ''Racine'', title = ''Phedre'', date = ''1677''\<rparr> (Path ''NER/a.xml'')\<rparr>"
  by (simp add: tei2spacy_simple_def example_env_def example_soup_def flatten_a doc_of_def
      token_label_def spacy_ent_def empty_entity_def)

lemma example_returns:
  "external_calls_return example_env (Path ''NER/a.xml'')"
  "external_calls_return example_env (Path ''NER/b.xml'')"
  by (simp_all add: external_calls_return_def example_env_def example_soup_def)

subsection \<open>The entity spans of a document\<close>

text \<open>
  Claim C7. For every file, the entity spans of the document that \<^verbatim>\<open>tei2spacy_simple\<close>
  returns satisfy: the start of a span is below its end; of two spans the earlier one
  ends where the later one starts or before (they do not overlap), and starts before it
  (they are ordered by start); and two consecutive spans never have both the same label
  and adjacent indices, the end of the first equal to the start of the second. The
  function returns a document whenever the calls into the libraries return: its own
  loops never raise.
\<close>

theorem entity_spans_ordered_disjoint:
  "(external_calls_return env p \<longrightarrow> (\<exists>d. tei2spacy_simple env p = Inr d))
   \<and> (\<forall>d. tei2spacy_simple env p = Inr d \<longrightarrow>
         (\<forall>s \<in> set (ents d). span_start s < span_end s)
       \<and> (\<forall>i j. i < j \<and> j < length (ents d) \<longrightarrow>
             span_end (ents d ! i) \<le> span_start (ents d ! j)
             \<and> span_start (ents d ! i) < span_start (ents d ! j))
       \<and> (\<forall>i. Suc i < length (ents d) \<longrightarrow>
             \<not> (span_label (ents d ! i) = span_label (ents d ! Suc i)
                \<and> span_end (ents d ! i) = span_start (ents d ! Suc i))))"
proof (rule conjI)
  show "external_calls_return env p \<longrightarrow> (\<exists>d. tei2spacy_simple env p = Inr d)"
    by (simp add: tei2spacy_simple_returns)
next
  show "\<forall>d. tei2spacy_simple env p = Inr d \<longrightarrow>
         (\<forall>s \<in> set (ents d). span_start s < span_end s)
       \<and> (\<forall>i j. i < j \<and> j < length (ents d) \<longrightarrow>
             span_end (ents d ! i) \<le> span_start (ents d ! j)
             \<and> span_start (ents d ! i) < span_start (ents d ! j))
       \<and> (\<forall>i. Suc i < length (ents d) \<longrightarrow>
             \<not> (span_label (ents d ! i) = span_label (ents d ! Suc i)
                \<and> span_end (ents d ! i) = span_start (ents d ! Suc i)))"
  proof (intro allI impI)
  fix d assume "tei2spacy_simple env p = Inr d"
  then have "spans_ok (ents d)" by (rule tei2spacy_simple_Inr(2))
  then have pos: "\<forall>s \<in> set (ents d). span_start s < span_end s"
    and srt: "sorted_wrt (\<lambda>s t. span_end s \<le> span_start t) (ents d)"
    and adj: "successively (\<lambda>s t. \<not> (span_label s = span_label t \<and> span_end s = span_start t)) (ents d)"
    unfolding spans_ok_def by auto
  have ord: "span_end (ents d ! i) \<le> span_start (ents d ! j)
           \<and> span_start (ents d ! i) < span_start (ents d ! j)" if "i < j" "j < length (ents d)" for i j
  proof -
    from srt that have a: "span_end (ents d ! i) \<le> span_start (ents d ! j)"
      by (simp add: sorted_wrt_iff_nth_less)
    from that have "ents d ! i \<in> set (ents d)" by simp
    with pos have "span_start (ents d ! i) < span_end (ents d ! i)" by blast
    with a show ?thesis by simp
  qed
  have nxt: "\<not> (span_label (ents d ! i) = span_label (ents d ! Suc i)
              \<and> span_end (ents d ! i) = span_start (ents d ! Suc i))" if "Suc i < length (ents d)" for i
    using successively_nth [OF adj that] .
  from pos ord nxt show "(\<forall>s \<in> set (ents d). span_start s < span_end s)
       \<and> (\<forall>i j. i < j \<and> j < length (ents d) \<longrightarrow>
             span_end (ents d ! i) \<le> span_start (ents d ! j)
             \<and> span_start (ents d ! i) < span_start (ents d ! j))
       \<and> (\<forall>i. Suc i < length (ents d) \<longrightarrow>
             \<not> (span_label (ents d ! i) = span_label (ents d ! Suc i)
                \<and> span_end (ents d ! i) = span_start (ents d ! Suc i)))"
    by blast
  qed
qed

text \<open>The file \<^verbatim>\<open>a.xml\<close> gives two spans, token 0 as a person and token 1 as a location.\<close>

theorem entity_spans_ordered_disjoint_witness:
  "external_calls_return example_env (Path ''NER/a.xml'')
   \<and> (\<exists>d. tei2spacy_simple example_env (Path ''NER/a.xml'') = Inr d
     \<and> ents d = [\<lparr>span_start = 0, span_end = 1, span_label = PERSON\<rparr>,
                 \<lparr>span_start = 1, span_end = 2, span_label = LOCATION\<rparr>]
     \<and> (0::nat) < 1 \<and> 1 < length (ents d)
     \<and> span_start (ents d ! 0) < span_end (ents d ! 0)
     \<and> span_end (ents d ! 0) \<le> span_start (ents d ! 1)
     \<and> span_start (ents d ! 0) < span_start (ents d ! 1)
     \<and> \<not> (span_label (ents d ! 0) = span_label (ents d ! 1)
            \<and> span_end (ents d ! 0) = span_start (ents d ! 1)))"
  using entity_spans_ordered_disjoint [of example_env "Path ''NER/a.xml''"]
  by (simp add: example_a example_returns)

text \<open>
  Claim C1 asks that an entity still open after the last token be closed there. The loop
  of \<^verbatim>\<open>tei2spacy_simple\<close> appends an entity to \<^verbatim>\<open>entities\<close> only when a later token has no
  label or another label, and nothing follows the loop: in the file \<^verbatim>\<open>b.xml\<close> the only
  token, \<^verbatim>\<open>Jean\<close>, is labelled as a person, and the document has no entity span.
\<close>

theorem trailing_entity_not_emitted:
  "\<exists>d. tei2spacy_simple example_env (Path ''NER/b.xml'') = Inr d
     \<and> doc_text d = ''Jean ''
     \<and> doc_tokens d = [\<lparr>tok_i = 0, tok_idx = 0, tok_text = ''Jean''\<rparr>]
     \<and> token_label (snd (flatten ner_label_table (example_regs (Path ''NER/b.xml''))))
          \<lparr>tok_i = 0, tok_idx = 0, tok_text = ''Jean''\<rparr> = Some PERSON
     \<and> ents d = []"
  by (simp add: tei2spacy_simple_def example_env_def example_soup_def flatten_def flatten_reg_def
      example_regs_def ner_label_table_def doc_of_def token_label_def spacy_ent_def
      empty_entity_def)

subsection \<open>The user data of a document\<close>

text \<open>
  Claim C9. For every file, the document that \<^verbatim>\<open>tei2spacy_simple\<close> returns has a
  \<^verbatim>\<open>user_data\<close> that holds the author, the title and the date of the metadata of the file
  (the date under the key \<^verbatim>\<open>publication_date\<close>), the path of the file as a string, its
  file name, and the key \<^verbatim>\<open>entity_linking\<close> with the value \<^verbatim>\<open>None\<close>. The function returns
  a document whenever the calls into the libraries return.
\<close>

theorem user_data_fields:
  "(external_calls_return env p \<longrightarrow> (\<exists>d. tei2spacy_simple env p = Inr d))
   \<and> (\<forall>d. tei2spacy_simple env p = Inr d \<longrightarrow>
         (\<exists>md. extract_metadata_from_tei env p = Inr md
            \<and> map_of (user_data d) ''author'' = Some (PyStr (author md))
            \<and> map_of (user_data d) ''title'' = Some (PyStr (title md))
            \<and> map_of (user_data d) ''publication_date'' = Some (PyStr (date md)))
       \<and> map_of (user_data d) ''path'' = Some (PyStr (path_str p))
       \<and> map_of (user_data d) ''filename'' = Some (PyStr (path_name p))
       \<and> map_of (user_data d) ''entity_linking'' = Some PyNone)"
proof -
  have a: "external_calls_return env p \<longrightarrow> (\<exists>d. tei2spacy_simple env p = Inr d)"
    by (simp add: tei2spacy_simple_returns)
  have b: "(\<exists>md. extract_metadata_from_tei env p = Inr md
            \<and> map_of (user_data d) ''author'' = Some (PyStr (author md))
            \<and> map_of (user_data d) ''title'' = Some (PyStr (title md))
            \<and> map_of (user_data d) ''publication_date'' = Some (PyStr (date md)))
       \<and> map_of (user_data d) ''path'' = Some (PyStr (path_str p))
       \<and> map_of (user_data d) ''filename'' = Some (PyStr (path_name p))
       \<and> map_of (user_data d) ''entity_linking'' = Some PyNone"
    if r: "tei2spacy_simple env p = Inr d" for d
  proof -
    from tei2spacy_simple_Inr(3) [OF r]
    obtain md where md: "extract_metadata_from_tei env p = Inr md"
      "user_data d = set_user_data md p" by blast
    then show ?thesis by (simp add: set_user_data_def)
  qed
  from a b show ?thesis by blast
qed

theorem user_data_fields_witness:
  "external_calls_return example_env (Path ''NER/a.xml'')
   \<and> (\<exists>d. tei2spacy_simple example_env (Path ''NER/a.xml'') = Inr d
     \<and> map_of (user_data d) ''author'' = Some (PyStr ''Racine'')
     \<and> map_of (user_data d) ''title'' = Some (PyStr ''Phedre'')
     \<and> map_of (user_data d) ''publication_date'' = Some (PyStr ''1677'')
     \<and> map_of (user_data d) ''path'' = Some (PyStr ''NER/a.xml'')
     \<and> map_of (user_data d) ''filename'' = Some (PyStr ''a.xml'')
     \<and> map_of (user_data d) ''entity_linking'' = Some PyNone)"
proof -
  have m: "extract_metadata_from_tei example_env (Path ''NER/a.xml'')
             = Inr \<lparr>author = ''Racine'', title = ''Phedre'', date = ''1677''\<rparr>"
    by (simp add: example_env_def)
  from user_data_fields [of example_env "Path ''NER/a.xml''"] example_returns(1) m
  show ?thesis by auto
qed

subsection \<open>The dictionary of intervals\<close>

lemma store_all_snoc:
  "store_all (tr @ [a]) = AList.update (fst (fst a)) (snd (fst a)) (store_all tr)"
  by (simp add: store_all_def)

lemma flatten_trace_node:
  "flatten_node lab n (out, store_all tr) =
     (case trace_node lab n (out, tr) of (out', tr') \<Rightarrow> (out', store_all tr'))"
  by (cases n) (simp_all add: Let_def store_all_snoc)

lemma flatten_trace_nodes:
  "fold (flatten_node lab) ns (out, store_all tr) =
     (case fold (trace_node lab) ns (out, tr) of (out', tr') \<Rightarrow> (out', store_all tr'))"
proof (induction ns arbitrary: out tr)
  case Nil
  then show ?case by simp
next
  case (Cons n ns)
  obtain out' tr' where t: "trace_node lab n (out, tr) = (out', tr')"
    by (cases "trace_node lab n (out, tr)")
  with Cons.IH [of out' tr'] show ?case
    by (simp add: flatten_trace_node)
qed

lemma flatten_trace_reg:
  "flatten_reg lab ns (out, store_all tr) =
     (case trace_reg lab ns (out, tr) of (out', tr') \<Rightarrow> (out', store_all tr'))"
  by (simp add: flatten_reg_def trace_reg_def flatten_trace_nodes split: prod.splits)

lemma flatten_trace_regs:
  "fold (flatten_reg lab) regs (out, store_all tr) =
     (case fold (trace_reg lab) regs (out, tr) of (out', tr') \<Rightarrow> (out', store_all tr'))"
proof (induction regs arbitrary: out tr)
  case Nil
  then show ?case by simp
next
  case (Cons r regs)
  obtain out' tr' where t: "trace_reg lab r (out, tr) = (out', tr')"
    by (cases "trace_reg lab r (out, tr)")
  with Cons.IH [of out' tr'] show ?case
    by (simp add: flatten_trace_reg)
qed

lemma chunks_eq_store_all: "snd (flatten lab regs) = store_all (assignments lab regs)"
proof -
  have "fold (flatten_reg lab) regs ('''', store_all []) =
     (case fold (trace_reg lab) regs ('''', []) of (out', tr') \<Rightarrow> (out', store_all tr'))"
    by (rule flatten_trace_regs)
  then show ?thesis
    by (simp add: flatten_def assignments_def store_all_def split: prod.splits)
qed

lemma trace_inv_node: "trace_inv st \<Longrightarrow> trace_inv (trace_node lab n st)"
  by (cases st; cases n) (auto simp: trace_inv_def sorted_wrt_append)

lemma trace_inv_nodes: "trace_inv st \<Longrightarrow> trace_inv (fold (trace_node lab) ns st)"
  by (induction ns arbitrary: st) (simp_all add: trace_inv_node)

lemma trace_inv_reg: "trace_inv st \<Longrightarrow> trace_inv (trace_reg lab ns st)"
proof -
  assume "trace_inv st"
  then have "trace_inv (fold (trace_node lab) ns st)" by (rule trace_inv_nodes)
  then show ?thesis
    by (cases "fold (trace_node lab) ns st") (auto simp: trace_reg_def trace_inv_def)
qed

lemma trace_inv_regs: "trace_inv st \<Longrightarrow> trace_inv (fold (trace_reg lab) regs st)"
  by (induction regs arbitrary: st) (simp_all add: trace_inv_reg)

lemma assignments_inv:
  "sorted_wrt (\<lambda>a b. snd (fst (fst a)) \<le> fst (fst (fst b))) (assignments lab regs)"
  "a \<in> set (assignments lab regs) \<Longrightarrow> snd (fst (fst a)) = fst (fst (fst a)) + length (snd a)"
proof -
  have "trace_inv ('''', [])" by (simp add: trace_inv_def)
  then have "trace_inv (fold (trace_reg lab) regs ('''', []))" by (rule trace_inv_regs)
  then show "sorted_wrt (\<lambda>a b. snd (fst (fst a)) \<le> fst (fst (fst b))) (assignments lab regs)"
    and "a \<in> set (assignments lab regs) \<Longrightarrow> snd (fst (fst a)) = fst (fst (fst a)) + length (snd a)"
    by (auto simp: trace_inv_def assignments_def)
qed

lemma distinct_store_all: "distinct (map fst (store_all tr))"
  by (induction tr rule: rev_induct) (simp_all add: store_all_snoc distinct_update, simp add: store_all_def)

lemma keys_store_all: "fst ` set (store_all tr) = (\<lambda>a. fst (fst a)) ` set tr"
  by (induction tr rule: rev_induct) (auto simp: store_all_snoc dom_update, simp_all add: store_all_def)

lemma map_of_store_all_last:
  "j < length tr \<Longrightarrow> \<forall>k. j < k \<and> k < length tr \<longrightarrow> fst (fst (tr ! k)) \<noteq> fst (fst (tr ! j)) \<Longrightarrow>
     map_of (store_all tr) (fst (fst (tr ! j))) = Some (snd (fst (tr ! j)))"
proof (induction tr rule: rev_induct)
  case Nil
  then show ?case by simp
next
  case (snoc a tr)
  show ?case
  proof (cases "j < length tr")
    case True
    from snoc.prems(2) [rule_format, of "length tr"] True
    have "fst (fst ((tr @ [a]) ! length tr)) \<noteq> fst (fst ((tr @ [a]) ! j))"
      by simp
    with True have ne: "fst (fst a) \<noteq> fst (fst (tr ! j))" by (simp add: nth_append)
    have "\<forall>k. j < k \<and> k < length tr \<longrightarrow> fst (fst (tr ! k)) \<noteq> fst (fst (tr ! j))"
    proof (intro allI impI)
      fix k assume k: "j < k \<and> k < length tr"
      with snoc.prems(2) [rule_format, of k]
      have "fst (fst ((tr @ [a]) ! k)) \<noteq> fst (fst ((tr @ [a]) ! j))" by simp
      with k True show "fst (fst (tr ! k)) \<noteq> fst (fst (tr ! j))" by (simp add: nth_append)
    qed
    with snoc.IH True have "map_of (store_all tr) (fst (fst (tr ! j))) = Some (snd (fst (tr ! j)))"
      by simp
    with True ne show ?thesis
      by (simp add: store_all_snoc update_conv' nth_append)
  next
    case False
    with snoc.prems(1) have "j = length tr" by simp
    then show ?thesis by (simp add: store_all_snoc update_conv')
  qed
qed

lemma same_interval_empty:
  assumes "i < j" "j < length (assignments lab regs)"
    "fst (fst (assignments lab regs ! i)) = fst (fst (assignments lab regs ! j))"
  shows "snd (assignments lab regs ! i) = [] \<and> snd (assignments lab regs ! j) = []
        \<and> fst (fst (fst (assignments lab regs ! i))) = snd (fst (fst (assignments lab regs ! i)))"
proof -
  let ?tr = "assignments lab regs"
  have "\<forall>i j. i < j \<longrightarrow> j < length ?tr \<longrightarrow>
          snd (fst (fst (?tr ! i))) \<le> fst (fst (fst (?tr ! j)))"
    using assignments_inv(1) [of lab regs] by (simp only: sorted_wrt_iff_nth_less)
  with assms have le: "snd (fst (fst (?tr ! i))) \<le> fst (fst (fst (?tr ! j)))"
    by blast
  from assms have "?tr ! i \<in> set ?tr" "?tr ! j \<in> set ?tr" by simp_all
  then have "snd (fst (fst (?tr ! i))) = fst (fst (fst (?tr ! i))) + length (snd (?tr ! i))"
    "snd (fst (fst (?tr ! j))) = fst (fst (fst (?tr ! j))) + length (snd (?tr ! j))"
    by (simp_all add: assignments_inv(2))
  with le assms(3) show ?thesis by auto
qed

lemma keys_flatten_node: "fst ` set (snd st) \<subseteq> fst ` set (snd (flatten_node lab n st))"
  by (cases st; cases n) (auto simp: Let_def dom_update)

lemma keys_flatten_nodes: "fst ` set (snd st) \<subseteq> fst ` set (snd (fold (flatten_node lab) ns st))"
proof (induction ns arbitrary: st)
  case Nil
  then show ?case by simp
next
  case (Cons n ns)
  from keys_flatten_node [of st lab n] Cons.IH [of "flatten_node lab n st"]
  show ?case by auto
qed

lemma snd_flatten_reg: "snd (flatten_reg lab ns st) = snd (fold (flatten_node lab) ns st)"
  by (simp add: flatten_reg_def split: prod.splits)

lemma keys_flatten_regs: "fst ` set (snd st) \<subseteq> fst ` set (snd (fold (flatten_reg lab) regs st))"
proof (induction regs arbitrary: st)
  case Nil
  then show ?case by simp
next
  case (Cons r regs)
  from keys_flatten_nodes [of st lab r] Cons.IH [of "flatten_reg lab r st"]
  show ?case by (auto simp: snd_flatten_reg)
qed

text \<open>
  Claim C10. The intervals are the keys of a dictionary, so in the \<^verbatim>\<open>chunks\<close> of every
  flattened document each interval occurs once, with one label, and the intervals of
  \<^verbatim>\<open>chunks\<close> are those of the assignments executed. Two annotation elements (the earlier
  at position \<open>i\<close>, the later at \<open>j\<close> of the sequence of assignments) give the same interval
  only if both have an empty text, the interval being of length zero at one position of
  the text. The label kept for an interval is the label of the last element that gave
  this interval.
\<close>

theorem chunks_keyed_by_interval:
  "distinct (map fst (snd (flatten lab regs)))
   \<and> fst ` set (snd (flatten lab regs)) = (\<lambda>a. fst (fst a)) ` set (assignments lab regs)
   \<and> (\<forall>i j. i < j \<and> j < length (assignments lab regs)
          \<and> fst (fst (assignments lab regs ! i)) = fst (fst (assignments lab regs ! j)) \<longrightarrow>
        snd (assignments lab regs ! i) = [] \<and> snd (assignments lab regs ! j) = []
        \<and> fst (fst (fst (assignments lab regs ! i))) = snd (fst (fst (assignments lab regs ! i))))
   \<and> (\<forall>j. j < length (assignments lab regs)
          \<and> (\<forall>k. j < k \<and> k < length (assignments lab regs) \<longrightarrow>
                fst (fst (assignments lab regs ! k)) \<noteq> fst (fst (assignments lab regs ! j))) \<longrightarrow>
        map_of (snd (flatten lab regs)) (fst (fst (assignments lab regs ! j)))
          = Some (snd (fst (assignments lab regs ! j))))"
proof -
  have a: "distinct (map fst (snd (flatten lab regs)))"
    by (simp add: chunks_eq_store_all distinct_store_all)
  have b: "fst ` set (snd (flatten lab regs)) = (\<lambda>a. fst (fst a)) ` set (assignments lab regs)"
    by (simp add: chunks_eq_store_all keys_store_all)
  have c: "\<forall>j. j < length (assignments lab regs)
          \<and> (\<forall>k. j < k \<and> k < length (assignments lab regs) \<longrightarrow>
                fst (fst (assignments lab regs ! k)) \<noteq> fst (fst (assignments lab regs ! j))) \<longrightarrow>
        map_of (snd (flatten lab regs)) (fst (fst (assignments lab regs ! j)))
          = Some (snd (fst (assignments lab regs ! j)))"
    by (simp add: chunks_eq_store_all map_of_store_all_last)
  from a b c same_interval_empty [of _ _ lab regs] show ?thesis by blast
qed

text \<open>
  The file \<^verbatim>\<open>c.xml\<close>: the two empty elements both give the interval from 3 to 3; one
  entry is kept, with the label of the second, a location.
\<close>

theorem chunks_keyed_by_interval_witness:
  "assignments ner_label_table (example_regs (Path ''NER/c.xml''))
     = [(((3, 3), PERSON), []), (((3, 3), LOCATION), [])]
   \<and> (0::nat) < 1 \<and> 1 < length (assignments ner_label_table (example_regs (Path ''NER/c.xml'')))
   \<and> fst (fst (assignments ner_label_table (example_regs (Path ''NER/c.xml'')) ! 0))
       = fst (fst (assignments ner_label_table (example_regs (Path ''NER/c.xml'')) ! 1))
   \<and> snd (assignments ner_label_table (example_regs (Path ''NER/c.xml'')) ! 0) = []
   \<and> snd (assignments ner_label_table (example_regs (Path ''NER/c.xml'')) ! 1) = []
   \<and> snd (flatten ner_label_table (example_regs (Path ''NER/c.xml''))) = [((3, 3), LOCATION)]
   \<and> map_of (snd (flatten ner_label_table (example_regs (Path ''NER/c.xml'')))) (3, 3) = Some LOCATION"
  using chunks_keyed_by_interval [of ner_label_table "example_regs (Path ''NER/c.xml'')"]
  by (simp add: assignments_def trace_reg_def flatten_def flatten_reg_def example_regs_def
      ner_label_table_def)

text \<open>
  Claim C6, as stated, fails: the file \<^verbatim>\<open>d.xml\<close> holds one \<^verbatim>\<open>persName\<close> element with an
  empty text, and the interval from 0 to 0 is in \<^verbatim>\<open>chunks\<close>, the dictionary that the loop
  over the tokens reads.
\<close>

theorem zero_length_interval_in_chunks:
  "((0, 0), PERSON) \<in> set (snd (flatten ner_label_table (example_regs (Path ''NER/d.xml''))))"
  by (simp add: flatten_def flatten_reg_def example_regs_def ner_label_table_def)

text \<open>
  Claim C6, amended. An annotation element (\<^verbatim>\<open>persName\<close> or \<^verbatim>\<open>placeName\<close>) with an empty
  text, anywhere in a document, gives the interval of length zero at the position that
  the text has reached; this interval is stored and is a key of the final \<^verbatim>\<open>chunks\<close>. An
  interval of length zero contains no token that has at least one character, so it
  labels none.
\<close>

theorem zero_length_interval_stored:
  assumes "name = ''persName'' \<or> name = ''placeName''"
  shows "(length (fst (fold (flatten_node lab) before (fold (flatten_reg lab) pre ('''', [])))),
          length (fst (fold (flatten_node lab) before (fold (flatten_reg lab) pre ('''', [])))))
           \<in> fst ` set (snd (flatten lab (pre @ [before @ Tag name [] # after] @ post)))
         \<and> (tok_text token \<noteq> [] \<longrightarrow> \<not> contains_token (n, n) token)"
proof
  let ?st1 = "fold (flatten_node lab) before (fold (flatten_reg lab) pre ('''', []))"
  let ?k = "(length (fst ?st1), length (fst ?st1))"
  let ?st2 = "flatten_node lab (Tag name []) ?st1"
  have "?k \<in> fst ` set (snd ?st2)"
    using assms by (cases ?st1) (auto simp: Let_def dom_update)
  also have "\<dots> \<subseteq> fst ` set (snd (fold (flatten_node lab) after ?st2))"
    by (rule keys_flatten_nodes)
  also have "fold (flatten_node lab) after ?st2
      = fold (flatten_node lab) (before @ Tag name [] # after) (fold (flatten_reg lab) pre ('''', []))"
    by simp
  also have "snd \<dots> = snd (flatten_reg lab (before @ Tag name [] # after) (fold (flatten_reg lab) pre ('''', [])))"
    by (simp only: snd_flatten_reg)
  also have "fst ` set \<dots> \<subseteq> fst ` set (snd (fold (flatten_reg lab) post
      (flatten_reg lab (before @ Tag name [] # after) (fold (flatten_reg lab) pre ('''', [])))))"
    by (rule keys_flatten_regs)
  also have "fold (flatten_reg lab) post
      (flatten_reg lab (before @ Tag name [] # after) (fold (flatten_reg lab) pre ('''', [])))
      = flatten lab (pre @ [before @ Tag name [] # after] @ post)"
    by (simp add: flatten_def)
  finally show "?k \<in> fst ` set (snd (flatten lab (pre @ [before @ Tag name [] # after] @ post)))" .
  show "tok_text token \<noteq> [] \<longrightarrow> \<not> contains_token (n, n) token"
    by (cases "tok_text token") (auto simp: contains_token_def)
qed

theorem zero_length_interval_stored_witness:
  "(''persName'' = ''persName'' \<or> ''persName'' = ''placeName'')
   \<and> example_regs (Path ''NER/c.xml'')
       = [] @ [[NavigableString ''il ''] @ Tag ''persName'' []
                 # [Tag ''placeName'' [], NavigableString ''dort'']] @ []
   \<and> (3, 3) \<in> fst ` set (snd (flatten ner_label_table (example_regs (Path ''NER/c.xml''))))
   \<and> tok_text \<lparr>tok_i = 1, tok_idx = 3, tok_text = ''dort''\<rparr> \<noteq> []
   \<and> \<not> contains_token (3, 3) \<lparr>tok_i = 1, tok_idx = 3, tok_text = ''dort''\<rparr>"
  using zero_length_interval_stored [of "''persName''" ner_label_table
          "[NavigableString ''il '']" "[]" "[Tag ''placeName'' [], NavigableString ''dort'']" "[]"
          "\<lparr>tok_i = 1, tok_idx = 3, tok_text = ''dort''\<rparr>" 3]
  by (simp add: example_regs_def numeral_3_eq_3)

subsection \<open>The intervals of a flattened document\<close>

text \<open>
  The dictionary \<^verbatim>\<open>chunks\<close> of every flattened document lists its intervals sorted by
  start and pairwise non-overlapping, hence pairwise disjoint: on the documents of the
  pipeline the first-match scan and the sorted scan agree.
\<close>

lemma sorted_nonoverlapping_iff:
  "sorted_nonoverlapping xs \<longleftrightarrow>
     sorted_wrt (\<lambda>k k'. fst k \<le> fst k' \<and> snd k \<le> fst k') (map fst xs)"
  by (induction xs) auto

lemma store_all_sorted:
  "sorted_wrt (\<lambda>a b. snd (fst (fst a)) \<le> fst (fst (fst b))) tr \<Longrightarrow>
   \<forall>a \<in> set tr. fst (fst (fst a)) \<le> snd (fst (fst a)) \<Longrightarrow>
   sorted_nonoverlapping (store_all tr)"
proof (induction tr rule: rev_induct)
  case Nil
  then show ?case by (simp add: store_all_def)
next
  case (snoc a tr)
  from snoc.prems(1) have srt: "sorted_wrt (\<lambda>a b. snd (fst (fst a)) \<le> fst (fst (fst b))) tr"
    and last: "\<forall>b \<in> set tr. snd (fst (fst b)) \<le> fst (fst (fst a))"
    by (simp_all add: sorted_wrt_append)
  from snoc.prems(2) have pos: "\<forall>b \<in> set tr. fst (fst (fst b)) \<le> snd (fst (fst b))" by simp
  from snoc.IH [OF srt pos]
  have ih: "sorted_wrt (\<lambda>k k'. fst k \<le> fst k' \<and> snd k \<le> fst k') (map fst (store_all tr))"
    by (simp add: sorted_nonoverlapping_iff)
  have before: "fst k \<le> fst (fst (fst a)) \<and> snd k \<le> fst (fst (fst a))"
    if "k \<in> set (map fst (store_all tr))" for k
  proof -
    from that have "k \<in> (\<lambda>a. fst (fst a)) ` set tr"
      using keys_store_all [of tr] by simp
    then obtain b where b: "b \<in> set tr" "k = fst (fst b)" by blast
    with last pos have "snd k \<le> fst (fst (fst a))" "fst k \<le> snd k" by simp_all
    then show ?thesis by simp
  qed
  show ?case
  proof (cases "fst (fst a) \<in> set (map fst (store_all tr))")
    case True
    then have "map fst (store_all (tr @ [a])) = map fst (store_all tr)"
      by (simp add: store_all_snoc update_keys)
    with ih show ?thesis by (simp add: sorted_nonoverlapping_iff)
  next
    case False
    then have "map fst (store_all (tr @ [a])) = map fst (store_all tr) @ [fst (fst a)]"
      by (simp add: store_all_snoc update_keys)
    with ih before show ?thesis
      by (simp add: sorted_nonoverlapping_iff sorted_wrt_append)
  qed
qed

lemma flatten_sorted_nonoverlapping: "sorted_nonoverlapping (snd (flatten lab regs))"
proof -
  have "\<forall>a \<in> set (assignments lab regs). fst (fst (fst a)) \<le> snd (fst (fst a))"
    using assignments_inv(2) [of _ lab regs] by simp
  with assignments_inv(1) [of lab regs] show ?thesis
    unfolding chunks_eq_store_all by (rule store_all_sorted)
qed

lemma sorted_nonoverlapping_disjoint:
  assumes "sorted_nonoverlapping xs"
  shows "disjoint_intervals xs"
proof -
  let ?R = "\<lambda>k k'. fst k \<le> fst k' \<and> snd k \<le> (fst k' :: nat)"
  from assms have s: "\<forall>i j. i < j \<longrightarrow> j < length xs \<longrightarrow> ?R (map fst xs ! i) (map fst xs ! j)"
    unfolding sorted_nonoverlapping_iff sorted_wrt_iff_nth_less by simp
  show ?thesis
    unfolding disjoint_intervals_def
  proof (intro ballI impI)
    fix x y assume "x \<in> set xs" "y \<in> set xs" and ne: "fst x \<noteq> fst y"
    then obtain i j where ij: "i < length xs" "xs ! i = x" "j < length xs" "xs ! j = y"
      by (auto simp: in_set_conv_nth)
    with ne have "i \<noteq> j" by auto
    then consider "i < j" | "j < i" by linarith
    then show "snd (fst x) \<le> fst (fst y) \<or> snd (fst y) \<le> fst (fst x)"
    proof cases
      case 1
      with s ij have "?R (map fst xs ! i) (map fst xs ! j)" by blast
      with ij show ?thesis by simp
    next
      case 2
      with s ij have "?R (map fst xs ! j) (map fst xs ! i)" by blast
      with ij show ?thesis by simp
    qed
  qed
qed

lemma flatten_disjoint: "disjoint_intervals (snd (flatten lab regs))"
  by (rule sorted_nonoverlapping_disjoint) (rule flatten_sorted_nonoverlapping)

text \<open>
  Claim C3. A token gets a label exactly when some interval of \<^verbatim>\<open>chunks\<close> contains its
  character range (\<^verbatim>\<open>start <= token.idx\<close> and \<^verbatim>\<open>end >= token.idx + len(token.text)\<close>), and
  the label it gets is the label of such an interval. So a token whose range is equal to
  an interval is labelled. A token that overlaps an interval without lying inside it (by
  one character at either edge, or by more) is left without a label, the intervals being
  pairwise disjoint; the intervals of every flattened document are.
\<close>

theorem token_labelled_iff_contained:
  "(token_label chunks token \<noteq> None \<longleftrightarrow>
      (\<exists>(iv, tag) \<in> set chunks. contains_token iv token))
   \<and> (\<forall>tag. token_label chunks token = Some tag \<longrightarrow>
         (\<exists>iv. (iv, tag) \<in> set chunks \<and> contains_token iv token))
   \<and> (((tok_idx token, tok_idx token + length (tok_text token)), tag') \<in> set chunks \<longrightarrow>
         token_label chunks token \<noteq> None)
   \<and> (disjoint_intervals chunks \<and> (iv', tag') \<in> set chunks \<and> overlaps_token iv' token
         \<and> \<not> contains_token iv' token \<longrightarrow> token_label chunks token = None)
   \<and> disjoint_intervals (snd (flatten lab regs))"
proof (intro conjI)
  show "disjoint_intervals (snd (flatten lab regs))"
    by (rule flatten_disjoint)
  show "token_label chunks token \<noteq> None \<longleftrightarrow>
      (\<exists>(iv, tag) \<in> set chunks. contains_token iv token)"
    by (rule token_label_iff)
  show "\<forall>tag. token_label chunks token = Some tag \<longrightarrow>
         (\<exists>iv. (iv, tag) \<in> set chunks \<and> contains_token iv token)"
    unfolding token_label_def contains_token_def
    by (auto dest!: get_tag_Some_contained)
  show "((tok_idx token, tok_idx token + length (tok_text token)), tag') \<in> set chunks \<longrightarrow>
         token_label chunks token \<noteq> None"
    unfolding token_label_iff contains_token_def by force
  show "disjoint_intervals chunks \<and> (iv', tag') \<in> set chunks \<and> overlaps_token iv' token
         \<and> \<not> contains_token iv' token \<longrightarrow> token_label chunks token = None"
  proof (intro impI, elim conjE)
    assume d: "disjoint_intervals chunks" and m: "(iv', tag') \<in> set chunks"
      and o: "overlaps_token iv' token" and n: "\<not> contains_token iv' token"
    show "token_label chunks token = None"
    proof (rule ccontr)
      assume "token_label chunks token \<noteq> None"
      then obtain iv tag where h: "(iv, tag) \<in> set chunks" "contains_token iv token"
        using token_label_iff [of chunks token] by auto
      from h n have "iv \<noteq> iv'" by auto
      with d h m have "snd iv \<le> fst iv' \<or> snd iv' \<le> fst iv"
        unfolding disjoint_intervals_def by force
      with o h(2) show False
        unfolding overlaps_token_def contains_token_def by linarith
    qed
  qed
qed

text \<open>
  The text \<^verbatim>\<open>Paris est beau\<close> with the interval 0 to 5: the token \<^verbatim>\<open>Paris\<close> is equal to
  the interval and is labelled; a token from 4 to 6 shares the one character at 4 with
  the interval and is not.
\<close>

theorem token_labelled_iff_contained_witness:
  "((tok_idx \<lparr>tok_i = 0, tok_idx = 0, tok_text = ''Paris''\<rparr>,
      tok_idx \<lparr>tok_i = 0, tok_idx = 0, tok_text = ''Paris''\<rparr>
        + length (tok_text \<lparr>tok_i = 0, tok_idx = 0, tok_text = ''Paris''\<rparr>)), LOCATION)
      \<in> set [((0, 5), LOCATION)]
   \<and> token_label [((0, 5), LOCATION)] \<lparr>tok_i = 0, tok_idx = 0, tok_text = ''Paris''\<rparr> = Some LOCATION
   \<and> disjoint_intervals [((0, 5), LOCATION)]
   \<and> overlaps_token (0, 5) \<lparr>tok_i = 0, tok_idx = 4, tok_text = ''s ''\<rparr>
   \<and> \<not> contains_token (0, 5) \<lparr>tok_i = 0, tok_idx = 4, tok_text = ''s ''\<rparr>
   \<and> token_label [((0, 5), LOCATION)] \<lparr>tok_i = 0, tok_idx = 4, tok_text = ''s ''\<rparr> = None"
  using token_labelled_iff_contained [of "[((0, 5), LOCATION)]"
          "\<lparr>tok_i = 0, tok_idx = 0, tok_text = ''Paris''\<rparr>" LOCATION "(0, 5)"
          ner_label_table "[]"]
        token_labelled_iff_contained [of "[((0, 5), LOCATION)]"
          "\<lparr>tok_i = 0, tok_idx = 4, tok_text = ''s ''\<rparr>" LOCATION "(0, 5)"
          ner_label_table "[]"]
  by (simp add: disjoint_intervals_def overlaps_token_def contains_token_def token_label_def)

subsection \<open>The batch\<close>

lemma doc_path_tei2spacy:
  assumes "tei2spacy_simple env p = Inr d"
  shows "doc_path d = Inr p"
proof -
  from tei2spacy_simple_Inr(3) [OF assms]
  obtain md where "user_data d = set_user_data md p" by blast
  then show ?thesis
    by (cases p) (simp add: doc_path_def set_user_data_def)
qed

lemma process_files_Inr:
  "process_files env files = Inr docs \<Longrightarrow>
     doc_paths docs = Inr files \<and> (\<forall>f \<in> set files. external_calls_return env f)"
proof (induction files arbitrary: docs)
  case Nil
  then show ?case by auto
next
  case (Cons f files)
  from Cons.prems obtain d ds where d: "tei2spacy_simple env f = Inr d"
    "process_files env files = Inr ds" "docs = d # ds"
    by (auto split: sum.splits)
  from Cons.IH [OF d(2)] doc_path_tei2spacy [OF d(1)] tei2spacy_simple_Inr(1) [OF d(1)] d(3)
  show ?case by simp
qed

lemma process_files_returns:
  "\<forall>f \<in> set files. external_calls_return env f \<Longrightarrow> \<exists>docs. process_files env files = Inr docs"
proof (induction files)
  case Nil
  then show ?case by simp
next
  case (Cons f files)
  then obtain d docs where "tei2spacy_simple env f = Inr d" "process_files env files = Inr docs"
    using tei2spacy_simple_returns [of env f] by auto
  then show ?case by simp
qed

lemma process_files_raises:
  assumes "\<not> (\<forall>f \<in> set files. external_calls_return env f)"
  shows "\<exists>e. process_files env files = Inl e"
proof (cases "process_files env files")
  case (Inl e)
  then show ?thesis by blast
next
  case (Inr docs)
  with process_files_Inr [OF Inr] assms show ?thesis by blast
qed

lemma doc_paths_append:
  "doc_paths c = Inr ps \<Longrightarrow> doc_paths ds = Inr qs \<Longrightarrow> doc_paths (c @ ds) = Inr (ps @ qs)"
  by (induction c arbitrary: ps) (auto split: sum.splits)

lemma fold_DocBin_add: "fold (\<lambda>d c. DocBin_add c d) docs c = c @ docs"
  by (induction docs arbitrary: c) (simp_all add: DocBin_add_def)

lemma set_set_minus: "set (set_minus a b) = set a - set b"
  by (auto simp: set_minus_def)

lemma distinct_set_minus: "distinct a \<Longrightarrow> distinct (set_minus a b)"
  by (simp add: set_minus_def)

lemma set_minus_idem: "set_minus (set_minus a b) b = set_minus a b"
  by (simp add: set_minus_def)

lemma set_minus_remdups_right: "set_minus a (remdups b) = set_minus a b"
  by (simp add: set_minus_def)

lemma sampled_files_eq:
  "sampled_files env sample_size already = set_minus (remdups (iterdir env)) already"
  by (simp add: sampled_files_def Let_def)

lemma batch_files_eq:
  "batch_files env order sample_size corpus =
     (case doc_paths corpus of
        Inl e \<Rightarrow> Inl e
      | Inr ps \<Rightarrow> Inr (order (set_minus (remdups (iterdir env)) ps)))"
proof (cases "doc_paths corpus")
  case (Inl e)
  then show ?thesis by (simp add: batch_files_def already_processed_files_def)
next
  case (Inr ps)
  let ?s = "set_minus (remdups (iterdir env)) (remdups ps)"
  have "distinct ?s" by (simp add: distinct_set_minus)
  then have "remdups ?s = ?s" by (rule distinct_remdups_id)
  then have "set_minus (remdups ?s) (remdups ps) = ?s"
    by (simp only: set_minus_idem)
  then have "length (set_minus (remdups ?s) (remdups ps)) = length ?s"
    by (simp only:)
  with Inr show ?thesis
    by (simp add: batch_files_def already_processed_files_def sampled_files_eq Let_def
        set_minus_remdups_right)
qed

lemma run_batch_eq:
  "run_batch env order sample_size store =
     (case doc_paths (load store) of
        Inl e \<Rightarrow> Inl e
      | Inr ps \<Rightarrow>
          (case process_files env (order (set_minus (remdups (iterdir env)) ps)) of
             Inl e \<Rightarrow> Inl e
           | Inr docs \<Rightarrow> Inr (Some (load store @ docs))))"
  by (simp add: run_batch_def Let_def batch_files_eq fold_DocBin_add split: sum.splits)

lemma run_batch_Inl:
  "doc_paths (load store) = Inl e \<Longrightarrow> run_batch env order sample_size store = Inl e"
  by (simp add: run_batch_eq)

lemma run_batch_returns:
  assumes "doc_paths (load store) = Inr ps"
    and "\<forall>f \<in> set (order (set_minus (remdups (iterdir env)) ps)). external_calls_return env f"
  shows "\<exists>docs. run_batch env order sample_size store = Inr (Some (load store @ docs))
           \<and> doc_paths docs = Inr (order (set_minus (remdups (iterdir env)) ps))"
proof -
  from process_files_returns [OF assms(2)]
  obtain docs where d: "process_files env (order (set_minus (remdups (iterdir env)) ps)) = Inr docs"
    by blast
  from process_files_Inr [OF d]
  have "doc_paths docs = Inr (order (set_minus (remdups (iterdir env)) ps))" by simp
  with assms(1) d show ?thesis by (simp add: run_batch_eq)
qed

lemma run_batch_raises:
  assumes "doc_paths (load store) = Inr ps"
    and "\<not> (\<forall>f \<in> set (order (set_minus (remdups (iterdir env)) ps)). external_calls_return env f)"
  shows "\<exists>e. run_batch env order sample_size store = Inl e"
proof -
  from process_files_raises [OF assms(2)]
  obtain e where "process_files env (order (set_minus (remdups (iterdir env)) ps)) = Inl e"
    by blast
  with assms(1) show ?thesis by (simp add: run_batch_eq)
qed


lemma order_Nil: "iteration_order order \<Longrightarrow> order [] = []"
  unfolding iteration_order_def by (metis distinct.simps(1) set_empty)

lemma order_set: "iteration_order order \<Longrightarrow> distinct xs \<Longrightarrow> set (order xs) = set xs"
  unfolding iteration_order_def by blast

lemma order_distinct: "iteration_order order \<Longrightarrow> distinct xs \<Longrightarrow> distinct (order xs)"
  unfolding iteration_order_def by blast

lemma store_after_idem:
  assumes "iteration_order order1" "iteration_order order2"
  shows "store_after env order2 size2 (store_after env order1 size1 store)
           = store_after env order1 size1 store"
proof (cases "doc_paths (load store)")
  case (Inl e)
  then have "store_after env order1 size1 store = store"
    by (simp add: store_after_def run_batch_Inl)
  moreover from Inl have "store_after env order2 size2 store = store"
    by (simp add: store_after_def run_batch_Inl)
  ultimately show ?thesis by simp
next
  case (Inr ps)
  let ?s = "set_minus (remdups (iterdir env)) ps"
  have ds: "distinct ?s" by (simp add: distinct_set_minus)
  with assms have s1: "set (order1 ?s) = set ?s" and s2: "set (order2 ?s) = set ?s"
    by (simp_all add: order_set)
  show ?thesis
  proof (cases "\<forall>f \<in> set ?s. external_calls_return env f")
    case False
    with s1 have "\<not> (\<forall>f \<in> set (order1 ?s). external_calls_return env f)" by simp
    from run_batch_raises [where order = order1 and env = env and sample_size = size1, OF Inr this]
    have a: "store_after env order1 size1 store = store"
      by (auto simp: store_after_def)
    from False s2 have "\<not> (\<forall>f \<in> set (order2 ?s). external_calls_return env f)" by simp
    from run_batch_raises [where order = order2 and env = env and sample_size = size2, OF Inr this]
    have "store_after env order2 size2 store = store"
      by (auto simp: store_after_def)
    with a show ?thesis by simp
  next
    case True
    with s1 have "\<forall>f \<in> set (order1 ?s). external_calls_return env f" by simp
    from run_batch_returns [where order = order1 and env = env and sample_size = size1, OF Inr this]
    obtain docs where r1: "run_batch env order1 size1 store = Inr (Some (load store @ docs))"
      and dp: "doc_paths docs = Inr (order1 ?s)" by blast
    then have a: "store_after env order1 size1 store = Some (load store @ docs)"
      by (simp add: store_after_def)
    have ld: "load (Some (load store @ docs)) = load store @ docs" by (simp add: load_def)
    have p2: "doc_paths (load (Some (load store @ docs))) = Inr (ps @ order1 ?s)"
      unfolding ld using Inr dp by (rule doc_paths_append)
    from s1 have "set_minus (remdups (iterdir env)) (ps @ order1 ?s) = []"
      by (auto simp: set_minus_def filter_empty_conv)
    with assms(2) have e: "order2 (set_minus (remdups (iterdir env)) (ps @ order1 ?s)) = []"
      by (simp add: order_Nil)
    have "run_batch env order2 size2 (Some (load store @ docs)) = Inr (Some (load store @ docs))"
      by (simp add: run_batch_eq p2 e) (simp add: ld)
    then have "store_after env order2 size2 (Some (load store @ docs)) = Some (load store @ docs)"
      by (simp add: store_after_def)
    with a show ?thesis by simp
  qed
qed

lemma doc_paths_store_after:
  assumes "doc_paths (load store) = Inr ps"
    and "\<forall>f \<in> set (order (set_minus (remdups (iterdir env)) ps)). external_calls_return env f"
  shows "doc_paths (load (store_after env order sample_size store))
           = Inr (ps @ order (set_minus (remdups (iterdir env)) ps))"
proof -
  from run_batch_returns [where order = order and env = env and sample_size = sample_size, OF assms]
  obtain docs where r: "run_batch env order sample_size store = Inr (Some (load store @ docs))"
    and dp: "doc_paths docs = Inr (order (set_minus (remdups (iterdir env)) ps))" by blast
  from r have "load (store_after env order sample_size store) = load store @ docs"
    by (simp add: store_after_def load_def)
  with doc_paths_append [OF assms(1) dp] show ?thesis by simp
qed

lemma iterdir_example: "iterdir example_env = [Path ''NER/a.xml'', Path ''NER/b.xml'']"
  by (simp add: example_env_def)

text \<open>
  Claim C4. Running the batch a second time on the store that the first run left, with
  the same files, leaves the store as it is, whatever the initial store and whatever the
  orders in which the two runs iterate over the set of files: the second run finds every
  listed file among the processed paths and adds nothing. So the paths of the documents
  and the summary counts after two runs are those after one run.
\<close>

theorem batch_run_idempotent:
  assumes "iteration_order order1" and "iteration_order order2"
  shows "store_after env order2 size2 (store_after env order1 size1 store)
           = store_after env order1 size1 store
         \<and> doc_paths (load (store_after env order2 size2 (store_after env order1 size1 store)))
             = doc_paths (load (store_after env order1 size1 store))
         \<and> summary (load (store_after env order2 size2 (store_after env order1 size1 store)))
             = summary (load (store_after env order1 size1 store))"
  using store_after_idem [OF assms, of env size2 size1 store] by simp

text \<open>
  From the absent store and the directory with \<^verbatim>\<open>a.xml\<close> and \<^verbatim>\<open>b.xml\<close>: the first run adds
  both documents, the second, iterating in the reverse order, adds none.
\<close>

theorem batch_run_idempotent_witness:
  "iteration_order (\<lambda>xs :: path list. xs) \<and> iteration_order (rev :: path list \<Rightarrow> path list)
   \<and> doc_paths (load (store_after example_env (\<lambda>xs. xs) 1 None))
       = Inr [Path ''NER/a.xml'', Path ''NER/b.xml'']
   \<and> store_after example_env rev 1 (store_after example_env (\<lambda>xs. xs) 1 None)
       = store_after example_env (\<lambda>xs. xs) 1 None
   \<and> doc_paths (load (store_after example_env rev 1 (store_after example_env (\<lambda>xs. xs) 1 None)))
       = Inr [Path ''NER/a.xml'', Path ''NER/b.xml'']"
  using batch_run_idempotent [of "\<lambda>xs. xs" rev example_env 1 1 None]
    doc_paths_store_after [where store = None and ps = "[]" and order = "\<lambda>xs. xs"
      and env = example_env and sample_size = 1]
  by (simp add: iteration_order_def load_def iterdir_example set_minus_def example_returns)




text \<open>
  Claim C5, as stated, fails: with a sample size of 1 and two files to process, both are
  handed to \<^verbatim>\<open>tei2spacy_simple\<close>.
\<close>

theorem batch_exceeds_sample_size:
  "batch_files example_env (\<lambda>xs. xs) 1 [] = Inr [Path ''NER/a.xml'', Path ''NER/b.xml'']
   \<and> \<not> length [Path ''NER/a.xml'', Path ''NER/b.xml''] \<le> (1::nat)"
  by (simp add: batch_files_eq iterdir_example set_minus_def)

text \<open>
  Claim C5, amended. In every run the files handed to \<^verbatim>\<open>tei2spacy_simple\<close> are the files of
  the directory listing that are not among the paths of the loaded corpus, each once.
  Their number is the number of such files; it does not depend on the sample size nor on
  what \<^verbatim>\<open>sample_files\<close> returns, whose result is replaced before it is used.
\<close>

theorem batch_files_all_unprocessed:
  assumes "iteration_order order" and "doc_paths spacy_corpus = Inr ps"
  shows "\<exists>files. batch_files env order sample_size spacy_corpus = Inr files
           \<and> set files = set (iterdir env) - set ps \<and> distinct files
           \<and> length files = card (set (iterdir env) - set ps)
           \<and> batch_files (env\<lparr>sample_files := f\<rparr>) order sample_size' spacy_corpus = Inr files"
proof -
  let ?s = "set_minus (remdups (iterdir env)) ps"
  let ?files = "order ?s"
  have ds: "distinct ?s" by (simp add: distinct_set_minus)
  with assms(1) have s: "set ?files = set ?s" and d: "distinct ?files"
    by (simp_all add: order_set order_distinct)
  from s have s': "set ?files = set (iterdir env) - set ps" by (simp add: set_set_minus)
  from d have "card (set ?files) = length ?files" by (rule distinct_card)
  with s' have l: "length ?files = card (set (iterdir env) - set ps)" by simp
  have b: "batch_files env order sample_size spacy_corpus = Inr ?files"
    by (simp add: batch_files_eq assms(2))
  have b': "batch_files (env\<lparr>sample_files := f\<rparr>) order sample_size' spacy_corpus = Inr ?files"
    by (simp add: batch_files_eq assms(2))
  from b s' d l b' show ?thesis by blast
qed

theorem batch_files_all_unprocessed_witness:
  "iteration_order (\<lambda>xs :: path list. xs)
   \<and> doc_paths ([] :: EntityCategory corpus) = Inr []
   \<and> (\<exists>files. batch_files example_env (\<lambda>xs. xs) 1 [] = Inr files
           \<and> set files = set (iterdir example_env) - set [] \<and> distinct files
           \<and> length files = card (set (iterdir example_env) - set [])
           \<and> length files = 2)"
  using batch_files_all_unprocessed [of "\<lambda>xs. xs" "[]" "[]" example_env 1 "sample_files example_env" 1]
  by (auto simp: iteration_order_def batch_files_eq iterdir_example set_minus_def)

end
